theory Spec2Isabelle
  imports Main "HOL-Library.Multiset" "HOL-Library.Sublist" "HOL-Library.AList"
begin

section \<open>The task board of the user dashboard\<close>

text \<open>
  A shallow embedding of \<^verbatim>\<open>src/pages/UserPages/Dashboard.jsx\<close>: the effect that loads
  and categorises the stored tasks, \<^verbatim>\<open>checkDeadlines\<close>, \<^verbatim>\<open>handleDragEnd\<close>,
  \<^verbatim>\<open>selectStatusFilter\<close> and \<^verbatim>\<open>filteredTasks\<close>. React state is passed explicitly:
  a handler takes the state of the render it closes over and returns the next state
  together with what it wrote to \<^verbatim>\<open>localStorage\<close>.
\<close>

subsection \<open>JavaScript values\<close>

text \<open>
  An identifier (\<^verbatim>\<open>task.id\<close>, \<^verbatim>\<open>active.id\<close>, \<^verbatim>\<open>over.id\<close>) is a string or an
  integral number. \<^verbatim>\<open>===\<close> on two of them is equality of the constructor and of its
  argument, so it is HOL's \<open>=\<close>. A string is falsy when empty, a number when zero.
\<close>

datatype ident = Str string | Num int

fun falsy :: "ident \<Rightarrow> bool" where
  "falsy (Str s) = (s = [])"
| "falsy (Num n) = (n = 0)"

datatype error = SyntaxError | TypeError

text \<open>\<^verbatim>\<open>String(n)\<close> for an integral number: its decimal digits, with a minus sign.\<close>

fun digits :: "nat \<Rightarrow> string" where
  "digits n =
     (if n < 10 then [''0123456789'' ! n]
      else digits (n div 10) @ [''0123456789'' ! (n mod 10)])"

declare digits.simps [simp del]

definition String_of_int :: "int \<Rightarrow> string" where
  "String_of_int n = (if n < 0 then CHR ''-'' # digits (nat (- n)) else digits (nat n))"

text \<open>A property key: a string stays as it is, a number is converted with \<^verbatim>\<open>String\<close>.\<close>

fun to_key :: "ident \<Rightarrow> string" where
  "to_key (Str s) = s"
| "to_key (Num n) = String_of_int n"

subsection \<open>Objects with ordered keys\<close>

text \<open>
  A JavaScript object is the list of its own properties in the order \<^verbatim>\<open>Object.keys\<close>
  and \<^verbatim>\<open>Object.entries\<close> give them: array indices (canonical decimal strings below
  \<open>2\<^sup>3\<^sup>2 - 1\<close>) in ascending order first, then the other keys in the order they
  were created.
\<close>

type_synonym 'v obj = "(string \<times> 'v) list"

definition digit_val :: "char \<Rightarrow> nat" where
  "digit_val c = of_char c - 48"

definition is_digit :: "char \<Rightarrow> bool" where
  "is_digit c = (48 \<le> (of_char c :: nat) \<and> (of_char c :: nat) \<le> 57)"

definition array_index :: "string \<Rightarrow> nat option" where
  "array_index s =
     (let n = foldl (\<lambda>acc c. acc * 10 + digit_val c) 0 s in
      if s \<noteq> [] \<and> list_all is_digit s \<and> (length s = 1 \<or> hd s \<noteq> CHR ''0'') \<and> n < 4294967295
      then Some n else None)"

definition index_below :: "nat \<Rightarrow> string \<times> 'v \<Rightarrow> bool" where
  "index_below n p = (case array_index (fst p) of Some m \<Rightarrow> m < n | None \<Rightarrow> False)"

text \<open>
  \<^verbatim>\<open>o[k] = v\<close>: an existing property keeps its place; a new one is created at the place
  its key has in the order above.
\<close>

definition obj_set :: "string \<Rightarrow> 'v \<Rightarrow> 'v obj \<Rightarrow> 'v obj" where
  "obj_set k v ob =
     (case map_of ob k of
        Some _ \<Rightarrow> AList.update k v ob
      | None \<Rightarrow>
          (case array_index k of
             None \<Rightarrow> ob @ [(k, v)]
           | Some n \<Rightarrow> takeWhile (index_below n) ob @ (k, v) # dropWhile (index_below n) ob))"

subsection \<open>Tasks and the board\<close>

text \<open>
  A task object with the fields the dashboard reads, typed as the stored collection
  holds them: \<^verbatim>\<open>id\<close>, \<^verbatim>\<open>title\<close>, an integer \<^verbatim>\<open>progress\<close> and a \<^verbatim>\<open>deadline\<close> that is
  a date string or absent. The state \<^verbatim>\<open>tasks\<close> is an object from column names to
  arrays of tasks.
\<close>

record task =
  task_id :: ident
  title :: string
  progress :: int
  deadline :: "string option"

type_synonym board = "task list obj"

text \<open>The initial state of \<^verbatim>\<open>useState\<close>.\<close>

definition initialTasks :: board where
  "initialTasks = [(''To Do'', []), (''In Progress'', []), (''Completed'', [])]"

text \<open>
  \<open>column b k\<close> reads a column the way the drag updater does
  (\<^verbatim>\<open>updatedTasks[targetColumn] || []\<close>): a missing column reads as empty.
\<close>

definition column :: "board \<Rightarrow> string \<Rightarrow> task list" where
  "column b k = (case map_of b k of Some ts \<Rightarrow> ts | None \<Rightarrow> [])"

text \<open>Every task on the board, column after column.\<close>

definition all_tasks :: "board \<Rightarrow> task list" where
  "all_tasks b = concat (map snd b)"

subsection \<open>Loading: the stored payload and its categorisation\<close>

text \<open>
  What \<^verbatim>\<open>JSON.parse\<close> can return, as far as the effect tells values apart: the falsy
  values, an array of tasks, and the other truthy values, none of which has a
  \<^verbatim>\<open>filter\<close> method. \<^verbatim>\<open>JSON.parse\<close> and \<^verbatim>\<open>localStorage\<close> belong to the runtime, so
  the stored item is given by what they do with it: the key is absent, its text is not
  JSON, or its text is the JSON of a value.
\<close>

datatype json = JNull | JBool bool | JNumber int | JString string | JArray "task list" | JObject

datatype item = Absent | Unparseable | Payload json

text \<open>
  \<^verbatim>\<open>JSON.parse(localStorage.getItem("tasks"))\<close>: \<^verbatim>\<open>getItem\<close> gives \<^verbatim>\<open>null\<close> for an absent
  key, which \<^verbatim>\<open>JSON.parse\<close> reads as the text \<^verbatim>\<open>null\<close>; a text that is not JSON throws.
\<close>

fun JSON_parse_getItem :: "item \<Rightarrow> error + json" where
  "JSON_parse_getItem Absent = Inr JNull"
| "JSON_parse_getItem Unparseable = Inl SyntaxError"
| "JSON_parse_getItem (Payload v) = Inr v"

fun truthy :: "json \<Rightarrow> bool" where
  "truthy JNull = False"
| "truthy (JBool b) = b"
| "truthy (JNumber n) = (n \<noteq> 0)"
| "truthy (JString s) = (s \<noteq> [])"
| "truthy (JArray ts) = True"
| "truthy JObject = True"

text \<open>\<^verbatim>\<open>const storedTasks = JSON.parse(localStorage.getItem("tasks")) || [];\<close>\<close>

definition storedTasks :: "item \<Rightarrow> error + json" where
  "storedTasks it =
     (case JSON_parse_getItem it of
        Inl e \<Rightarrow> Inl e
      | Inr v \<Rightarrow> Inr (if truthy v then v else JArray []))"

text \<open>The three \<^verbatim>\<open>filter\<close> calls that build \<^verbatim>\<open>categorizedTasks\<close>.\<close>

definition categorizedTasks :: "task list \<Rightarrow> board" where
  "categorizedTasks ts =
     [(''To Do'', filter (\<lambda>task. progress task \<le> 40) ts),
      (''In Progress'', filter (\<lambda>task. progress task > 40 \<and> progress task \<le> 80) ts),
      (''Completed'', filter (\<lambda>task. progress task > 80) ts)]"

subsection \<open>Deadline notifications\<close>

text \<open>
  \<^verbatim>\<open>showNotification\<close> shows a toast and plays the sound. The state of the notifier is
  the list of toasts shown so far (message and colour class) and the number of times
  the sound was played.
\<close>

record toast =
  message :: string
  bgClass :: string

record notifier =
  toasts :: "toast list"
  plays :: nat

definition showNotification :: "string \<Rightarrow> string \<Rightarrow> notifier \<Rightarrow> notifier" where
  "showNotification msg cls n =
     n\<lparr>toasts := toasts n @ [\<lparr>message = msg, bgClass = cls\<rparr>], plays := Suc (plays n)\<rparr>"

text \<open>The two template strings, in UTF-8; each starts with an emoji.\<close>

definition dueTodayMessage :: "string \<Rightarrow> string" where
  "dueTodayMessage t =
     [CHR 0xF0, CHR 0x9F, CHR 0x9A, CHR 0xA8] @ '' Task Due Today: '' @ [CHR 0x22] @ t @ [CHR 0x22]"

definition dueTomorrowMessage :: "string \<Rightarrow> string" where
  "dueTomorrowMessage t =
     [CHR 0xE2, CHR 0x8F, CHR 0xB3] @ '' Task Due Tomorrow: '' @ [CHR 0x22] @ t @ [CHR 0x22]"

text \<open>
  Time values are milliseconds since the epoch, in UTC. \<open>Day t\<close> is the day number
  of a time value, and \<open>civil\<close> is the date of a day number in the Gregorian calendar
  (year, month, day of the month), computed in stages from the day's position in its
  400-year cycle.
\<close>

definition msPerDay :: int where
  "msPerDay = 86400000"

definition Day :: "int \<Rightarrow> int" where
  "Day t = t div msPerDay"

definition yoe_of :: "int \<Rightarrow> int" where
  "yoe_of doe = (doe - doe div 1460 + doe div 36524 - doe div 146096) div 365"

definition doy_of :: "int \<Rightarrow> int \<Rightarrow> int" where
  "doy_of doe yoe = doe - (365 * yoe + yoe div 4 - yoe div 100)"

definition month_of :: "int \<Rightarrow> int" where
  "month_of mp = (if mp < 10 then mp + 3 else mp - 9)"

definition ymd :: "int \<Rightarrow> int \<Rightarrow> int \<Rightarrow> int \<Rightarrow> int \<times> int \<times> int" where
  "ymd era yoe doy mp =
     (yoe + era * 400 + (if month_of mp \<le> 2 then 1 else 0),
      month_of mp,
      doy - (153 * mp + 2) div 5 + 1)"

definition from_doe :: "int \<Rightarrow> int \<Rightarrow> int \<times> int \<times> int" where
  "from_doe era doe =
     ymd era (yoe_of doe) (doy_of doe (yoe_of doe)) ((5 * doy_of doe (yoe_of doe) + 2) div 153)"

definition civil :: "int \<Rightarrow> int \<times> int \<times> int" where
  "civil z = from_doe ((z + 719468) div 146097) ((z + 719468) mod 146097)"

text \<open>
  The date part of \<^verbatim>\<open>toISOString()\<close>, which is what \<^verbatim>\<open>.split("T")[0]\<close> keeps: the UTC
  date as \<^verbatim>\<open>YYYY-MM-DD\<close>, the year with a sign and six digits outside 0 to 9999.
\<close>

definition pad :: "nat \<Rightarrow> string \<Rightarrow> string" where
  "pad w s = replicate (w - length s) (CHR ''0'') @ s"

definition year_text :: "int \<Rightarrow> string" where
  "year_text y =
     (if 0 \<le> y \<and> y \<le> 9999 then pad 4 (digits (nat y))
      else (if y < 0 then CHR ''-'' else CHR ''+'') # pad 6 (digits (nat \<bar>y\<bar>)))"

definition date_text :: "int \<times> int \<times> int \<Rightarrow> string" where
  "date_text c =
     (case c of (y, m, d) \<Rightarrow>
        year_text y @ ''-'' @ pad 2 (digits (nat m)) @ ''-'' @ pad 2 (digits (nat d)))"

definition date_of_day :: "int \<Rightarrow> string" where
  "date_of_day z = date_text (civil z)"

definition toISODate :: "int \<Rightarrow> string" where
  "toISODate t = date_of_day (Day t)"

text \<open>
  What \<^verbatim>\<open>checkDeadlines\<close> reads from the runtime: the time values of its two
  \<^verbatim>\<open>new Date()\<close> calls, and the local time zone as its two offset functions, one for
  a UTC time value and one for a local time value.
\<close>

record clock =
  first_now :: int
  second_now :: int
  LocalTZA_utc :: "int \<Rightarrow> int"
  LocalTZA_local :: "int \<Rightarrow> int"

definition LocalTime :: "clock \<Rightarrow> int \<Rightarrow> int" where
  "LocalTime clk t = t + LocalTZA_utc clk t"

definition UTC :: "clock \<Rightarrow> int \<Rightarrow> int" where
  "UTC clk x = x - LocalTZA_local clk x"

text \<open>\<^verbatim>\<open>const today = new Date().toISOString().split("T")[0];\<close>\<close>

definition today :: "clock \<Rightarrow> string" where
  "today clk = toISODate (first_now clk)"

text \<open>
  \<^verbatim>\<open>const tomorrow = new Date(); tomorrow.setDate(tomorrow.getDate() + 1);\<close>
  \<^verbatim>\<open>getDate\<close> is the day of the month of the local time; \<^verbatim>\<open>setDate\<close> with that day
  plus one keeps the local time of day and moves the local date one day on, also across
  the end of a month, so the local time value grows by one day; the result is
  converted back to a UTC time value.
\<close>

definition tomorrow :: "clock \<Rightarrow> int" where
  "tomorrow clk = UTC clk (LocalTime clk (second_now clk) + msPerDay)"

text \<open>\<^verbatim>\<open>const tomorrowStr = tomorrow.toISOString().split("T")[0];\<close>\<close>

definition tomorrowStr :: "clock \<Rightarrow> string" where
  "tomorrowStr clk = toISODate (tomorrow clk)"

text \<open>\<^verbatim>\<open>checkDeadlines\<close>: \<^verbatim>\<open>forEach\<close> is a fold over the notifier.\<close>

definition checkDeadlines :: "clock \<Rightarrow> task list \<Rightarrow> notifier \<Rightarrow> notifier" where
  "checkDeadlines clk ts =
     fold (\<lambda>task n.
             if deadline task = Some (today clk)
             then showNotification (dueTodayMessage (title task)) ''bg-red-500 text-white'' n
             else if deadline task = Some (tomorrowStr clk)
             then showNotification (dueTomorrowMessage (title task)) ''bg-yellow-500 text-black'' n
             else n) ts"

text \<open>
  The effect that runs once on mount: it sets the state to \<^verbatim>\<open>categorizedTasks\<close> and
  checks the deadlines. \<^verbatim>\<open>storedTasks.filter\<close> is not a function unless the stored value
  is an array.
\<close>

definition taskLoadEffect :: "item \<Rightarrow> clock \<Rightarrow> notifier \<Rightarrow> error + (board \<times> notifier)" where
  "taskLoadEffect it clk n =
     (case storedTasks it of
        Inl e \<Rightarrow> Inl e
      | Inr (JArray ts) \<Rightarrow> Inr (categorizedTasks ts, checkDeadlines clk ts n)
      | Inr _ \<Rightarrow> Inl TypeError)"

subsection \<open>Dragging a card\<close>

record drag_event =
  active :: ident
  over :: "ident option"

text \<open>
  \<^verbatim>\<open>Object.keys(tasks).find((column) => tasks[column].some((task) => task.id === x))\<close>
  (every key of an object has a value, so the \<open>None\<close> case of the lookup does not
  arise).
\<close>

definition findColumn :: "board \<Rightarrow> ident \<Rightarrow> string option" where
  "findColumn tasks x =
     List.find (\<lambda>column. case map_of tasks column of
                            Some ts \<Rightarrow> list_ex (\<lambda>task. task_id task = x) ts
                          | None \<Rightarrow> False)
       (map fst tasks)"

definition sourceColumn :: "board \<Rightarrow> drag_event \<Rightarrow> string option" where
  "sourceColumn tasks event = findColumn tasks (active event)"

text \<open>\<^verbatim>\<open>find(...) || over.id\<close>: the column of the task under the card, else the id itself.\<close>

definition targetColumn :: "board \<Rightarrow> ident \<Rightarrow> ident" where
  "targetColumn tasks over_id =
     (case findColumn tasks over_id of
        Some c \<Rightarrow> if c \<noteq> [] then Str c else over_id
      | None \<Rightarrow> over_id)"

text \<open>
  The updater passed to \<^verbatim>\<open>setTasks\<close>. \<^verbatim>\<open>movedTask\<close> is the first task of the source
  column with the dragged id, \<^verbatim>\<open>filter\<close> removes every task with that id, and the
  moved task is appended to the target column. The handler only calls the updater with
  a source column that holds the dragged id (lemma \<open>movedTask_found\<close>), so the branch
  without a moved task is never taken.
\<close>

definition movedTask :: "board \<Rightarrow> string \<Rightarrow> ident \<Rightarrow> task option" where
  "movedTask prevTasks src x = List.find (\<lambda>task. task_id task = x) (column prevTasks src)"

definition updatedTasks :: "string \<Rightarrow> ident \<Rightarrow> ident \<Rightarrow> board \<Rightarrow> board" where
  "updatedTasks src tgt x prevTasks =
     (let removed = obj_set src (filter (\<lambda>task. task_id task \<noteq> x) (column prevTasks src)) prevTasks
      in obj_set (to_key tgt)
           (column removed (to_key tgt) @
              (case movedTask prevTasks src x of Some t \<Rightarrow> [t] | None \<Rightarrow> []))
           removed)"

text \<open>
  The array written to \<^verbatim>\<open>localStorage\<close>:
  \<^verbatim>\<open>[...tasks["To Do"], ...tasks["In Progress"], ...tasks["Completed"]]\<close>. Spreading a
  missing column throws.
\<close>

definition flatTasks :: "board \<Rightarrow> error + task list" where
  "flatTasks tasks =
     (case (map_of tasks ''To Do'', map_of tasks ''In Progress'', map_of tasks ''Completed'') of
        (Some a, Some b, Some c) \<Rightarrow> Inr (a @ b @ c)
      | _ \<Rightarrow> Inl TypeError)"

text \<open>
  \<^verbatim>\<open>handleDragEnd\<close>, for the state \<^verbatim>\<open>tasks\<close> of the render whose handler runs. The
  result is the next state and the value handed to \<^verbatim>\<open>localStorage.setItem\<close>, if the
  handler got that far. The updater runs on the state the handler saw, since the
  interface delivers one event at a time. The array that is stored is built from
  \<^verbatim>\<open>tasks\<close>, the constant of the render: \<^verbatim>\<open>setTasks\<close> does not change it.
\<close>

definition handleDragEnd :: "board \<Rightarrow> drag_event \<Rightarrow> board \<times> (error + task list) option" where
  "handleDragEnd tasks event =
     (case over event of
        None \<Rightarrow> (tasks, None)
      | Some over_id \<Rightarrow>
          if active event = over_id then (tasks, None)
          else
            (case sourceColumn tasks event of
               None \<Rightarrow> (tasks, None)
             | Some src \<Rightarrow>
                 if src = [] \<or> falsy (targetColumn tasks over_id)
                    \<or> Str src = targetColumn tasks over_id
                 then (tasks, None)
                 else (updatedTasks src (targetColumn tasks over_id) (active event) tasks,
                       Some (flatTasks tasks))))"

subsection \<open>The status filter\<close>

definition DEFAULT_FILTER_OPTION :: string where
  "DEFAULT_FILTER_OPTION = ''all''"

text \<open>\<^verbatim>\<open>selectStatusFilter(status)()\<close> in a render whose filter is \<open>taskStatusFilter\<close>.\<close>

definition selectStatusFilter :: "string \<Rightarrow> string \<Rightarrow> string" where
  "selectStatusFilter taskStatusFilter status =
     (if taskStatusFilter = status then DEFAULT_FILTER_OPTION else status)"

definition filteredTasks :: "board \<Rightarrow> string \<Rightarrow> board" where
  "filteredTasks tasks taskStatusFilter =
     (if taskStatusFilter = DEFAULT_FILTER_OPTION then tasks
      else filter (\<lambda>(key, _). key = taskStatusFilter) tasks)"

subsection \<open>The specification's vocabulary\<close>

text \<open>
  The categoriser as section 4.1 of the specification words it: progress up to 40 is
  To Do, above 40 and up to 80 is In Progress, above 80 is Completed. The code has no
  such function; it is compared with the three filters of \<open>categorizedTasks\<close> below.
\<close>

definition spec_categorize :: "int \<Rightarrow> string" where
  "spec_categorize p =
     (if p \<le> 40 then ''To Do'' else if p \<le> 80 then ''In Progress'' else ''Completed'')"

text \<open>
  The events section 4.5 asks of one task, rule by rule, for the date texts \<open>d0\<close> of
  today and \<open>d1\<close> of the day after: a due-today event when the deadline is \<open>d0\<close>, a
  due-tomorrow event when it is \<open>d1\<close>.
\<close>

definition spec_events :: "string \<Rightarrow> string \<Rightarrow> task \<Rightarrow> toast list" where
  "spec_events d0 d1 t =
     (if deadline t = Some d0
      then [\<lparr>message = dueTodayMessage (title t), bgClass = ''bg-red-500 text-white''\<rparr>]
      else []) @
     (if deadline t = Some d1
      then [\<lparr>message = dueTomorrowMessage (title t), bgClass = ''bg-yellow-500 text-black''\<rparr>]
      else [])"

subsection \<open>Example data\<close>

text \<open>
  The board of the specification's scenario: three tasks with progress 10, 50 and 90.
\<close>

definition example_task :: "int \<Rightarrow> int \<Rightarrow> task" where
  "example_task i p = \<lparr>task_id = Num i, title = ''task'', progress = p, deadline = None\<rparr>"

definition example_board :: board where
  "example_board = categorizedTasks [example_task 1 10, example_task 2 50, example_task 3 90]"

definition due_task :: "int \<Rightarrow> string \<Rightarrow> string \<Rightarrow> task" where
  "due_task i t d = \<lparr>task_id = Num i, title = t, progress = 0, deadline = Some d\<rparr>"

definition silent :: notifier where
  "silent = \<lparr>toasts = [], plays = 0\<rparr>"

text \<open>
  Two clocks. One is in a zone with no offset. The other is in New York in 2025:
  five hours behind UTC, four between 9 March 07:00 UTC and 2 November 06:00 UTC; a
  local time in the hour skipped in March or repeated in November is read with the
  offset in force before the change. Both calls of \<^verbatim>\<open>new Date()\<close> read the same
  millisecond.
\<close>

definition utc_clock :: "int \<Rightarrow> clock" where
  "utc_clock t =
     \<lparr>first_now = t, second_now = t, LocalTZA_utc = (\<lambda>_. 0), LocalTZA_local = (\<lambda>_. 0)\<rparr>"

definition new_york_utc :: "int \<Rightarrow> int" where
  "new_york_utc t =
     (if 1741503600000 \<le> t \<and> t < 1762063200000 then - 14400000 else - 18000000)"

definition new_york_local :: "int \<Rightarrow> int" where
  "new_york_local x =
     (if 1741489200000 \<le> x \<and> x < 1762048800000 then - 14400000 else - 18000000)"

definition new_york_clock :: "int \<Rightarrow> clock" where
  "new_york_clock t =
     \<lparr>first_now = t, second_now = t,
      LocalTZA_utc = new_york_utc, LocalTZA_local = new_york_local\<rparr>"

section \<open>Properties\<close>

subsection \<open>Objects\<close>

lemma map_of_insert_between:
  "map_of (xs @ ys) k = None \<Longrightarrow> map_of (xs @ (k, v) # ys) = (map_of (xs @ ys))(k \<mapsto> v)"
  by (induction xs) (auto simp: fun_eq_iff)

lemma map_of_obj_set: "map_of (obj_set k v ob) = (map_of ob)(k \<mapsto> v)"
proof (cases "map_of ob k")
  case (Some old)
  then show ?thesis by (simp add: obj_set_def update_conv')
next
  case None
  show ?thesis
  proof (cases "array_index k")
    case absent: None
    from map_of_insert_between [of ob "[]" k v] None absent show ?thesis
      by (simp add: obj_set_def)
  next
    case (Some n)
    from map_of_insert_between [of "takeWhile (index_below n) ob" "dropWhile (index_below n) ob" k v]
      None Some show ?thesis
      by (simp add: obj_set_def)
  qed
qed

lemma column_obj_set: "column (obj_set k v ob) k' = (if k' = k then v else column ob k')"
  by (simp add: column_def map_of_obj_set)

lemma mset_update_present:
  "map_of ob k = Some old \<Longrightarrow>
   mset (concat (map snd (AList.update k v ob))) + mset old = mset (concat (map snd ob)) + mset v"
  by (induction ob) (auto split: if_splits)

lemma mset_all_tasks_obj_set:
  "mset (all_tasks (obj_set k v ob)) + mset (column ob k) = mset (all_tasks ob) + mset v"
proof (cases "map_of ob k")
  case (Some old)
  with mset_update_present [OF Some, of v] show ?thesis
    by (simp add: obj_set_def all_tasks_def column_def)
next
  case None
  have split: "mset (concat (map snd (xs @ (k, v) # ys))) = mset (concat (map snd (xs @ ys))) + mset v"
    for xs ys :: board
    by simp
  show ?thesis
  proof (cases "array_index k")
    case absent: None
    with None split [of ob "[]"] show ?thesis
      by (simp add: obj_set_def all_tasks_def column_def)
  next
    case (Some n)
    with None split [of "takeWhile (index_below n) ob" "dropWhile (index_below n) ob"] show ?thesis
      by (simp add: obj_set_def all_tasks_def column_def)
  qed
qed

lemma findColumn_SomeD:
  assumes "findColumn tasks x = Some c"
  shows "c \<in> set (map fst tasks) \<and> (\<exists>t \<in> set (column tasks c). task_id t = x)"
proof -
  from assms obtain i where i: "i < length (map fst tasks)" "map fst tasks ! i = c"
    and holds: "(case map_of tasks c of Some ts \<Rightarrow> list_ex (\<lambda>task. task_id task = x) ts | None \<Rightarrow> False)"
    unfolding findColumn_def find_Some_iff by blast
  from i have "c \<in> set (map fst tasks)" by (metis nth_mem)
  moreover from holds have "\<exists>t \<in> set (column tasks c). task_id t = x"
    by (auto simp: column_def list_ex_iff split: option.splits)
  ultimately show ?thesis by blast
qed

lemma findColumn_None_iff:
  "findColumn tasks x = None \<longleftrightarrow> (\<forall>c \<in> set (map fst tasks). \<forall>t \<in> set (column tasks c). task_id t \<noteq> x)"
proof -
  have "(case map_of tasks c of Some ts \<Rightarrow> list_ex (\<lambda>task. task_id task = x) ts | None \<Rightarrow> False)
      \<longleftrightarrow> (\<exists>t \<in> set (column tasks c). task_id t = x)" for c
    by (auto simp: column_def list_ex_iff split: option.splits)
  then show ?thesis
    unfolding findColumn_def find_None_iff by blast
qed

lemma movedTask_found:
  assumes "findColumn tasks x = Some src"
  shows "\<exists>t. movedTask tasks src x = Some t \<and> task_id t = x \<and> t \<in> set (column tasks src)"
proof -
  from findColumn_SomeD [OF assms] obtain u where "u \<in> set (column tasks src)" "task_id u = x"
    by blast
  then have "List.find (\<lambda>task. task_id task = x) (column tasks src) \<noteq> None"
    by (auto simp: find_None_iff)
  then obtain t where t: "List.find (\<lambda>task. task_id task = x) (column tasks src) = Some t"
    by blast
  then have "task_id t = x \<and> t \<in> set (column tasks src)"
    by (auto simp: find_Some_iff)
  with t show ?thesis by (simp add: movedTask_def)
qed

lemma find_distinct_ids:
  "distinct (map task_id ts) \<Longrightarrow> t \<in> set ts \<Longrightarrow>
   List.find (\<lambda>task. task_id task = task_id t) ts = Some t
   \<and> filter (\<lambda>task. task_id task \<noteq> task_id t) ts = remove1 t ts"
proof (induction ts)
  case Nil
  then show ?case by simp
next
  case (Cons a ts)
  show ?case
  proof (cases "a = t")
    case True
    with Cons.prems have "task_id t \<notin> task_id ` set ts" by simp
    then have "\<forall>u \<in> set ts. task_id u \<noteq> task_id t" by (metis imageI)
    then have "filter (\<lambda>task. task_id task \<noteq> task_id t) ts = ts"
      by (simp add: filter_id_conv)
    with True show ?thesis by simp
  next
    case False
    with Cons.prems have "t \<in> set ts" "task_id a \<noteq> task_id t" by force+
    with Cons False show ?thesis by auto
  qed
qed

lemma column_in_board:
  "t \<in> set (column tasks k) \<Longrightarrow> (k, column tasks k) \<in> set tasks"
  by (auto simp: column_def split: option.splits dest: map_of_SomeD)

lemma distinct_ids_column:
  assumes "distinct (map task_id (all_tasks tasks))"
  shows "distinct (map task_id (column tasks k))"
proof (cases "map_of tasks k")
  case None
  then show ?thesis by (simp add: column_def)
next
  case (Some ts)
  then have "(k, ts) \<in> set tasks" by (rule map_of_SomeD)
  then have "ts \<in> set (map snd tasks)" by force
  with assms have "distinct (map task_id ts)"
    unfolding all_tasks_def by (induction tasks) (auto simp: distinct_map)
  with Some show ?thesis by (simp add: column_def)
qed

lemma ids_apart:
  "distinct (map task_id (concat (map snd ob))) \<Longrightarrow> (a, xs) \<in> set ob \<Longrightarrow> (b, ys) \<in> set ob
   \<Longrightarrow> a \<noteq> b \<Longrightarrow> x \<in> set xs \<Longrightarrow> y \<in> set ys \<Longrightarrow> task_id x \<noteq> task_id y"
proof (induction ob)
  case Nil
  then show ?case by simp
next
  case (Cons p ob)
  from Cons.prems(1) have rest: "distinct (map task_id (concat (map snd ob)))"
    and apart: "task_id ` set (snd p) \<inter> task_id ` set (concat (map snd ob)) = {}"
    by simp_all
  have inside: "z \<in> set (concat (map snd ob))" if "(c, zs) \<in> set ob" "z \<in> set zs" for c zs z
    using that by force
  consider "(a, xs) = p" "(b, ys) \<in> set ob" | "(a, xs) \<in> set ob" "(b, ys) = p"
    | "(a, xs) \<in> set ob" "(b, ys) \<in> set ob"
    using Cons.prems(2,3,4) by auto
  then show ?case
  proof cases
    case 1
    with Cons.prems(5,6) have "x \<in> set (snd p)" "y \<in> set (concat (map snd ob))"
      using inside by auto
    with apart show ?thesis by blast
  next
    case 2
    with Cons.prems(5,6) have "y \<in> set (snd p)" "x \<in> set (concat (map snd ob))"
      using inside by auto
    with apart show ?thesis by force
  next
    case 3
    with Cons.IH rest Cons.prems(4,5,6) show ?thesis by blast
  qed
qed

lemma findColumn_unique:
  assumes ids: "distinct (map task_id (all_tasks tasks))"
    and T: "T \<in> set (column tasks A)"
  shows "findColumn tasks (task_id T) = Some A"
proof -
  from T have A: "(A, column tasks A) \<in> set tasks" by (rule column_in_board)
  then have "A \<in> set (map fst tasks)" by force
  with T have "findColumn tasks (task_id T) \<noteq> None"
    unfolding findColumn_None_iff by blast
  then obtain c where c: "findColumn tasks (task_id T) = Some c" by blast
  from findColumn_SomeD [OF c] obtain u where u: "u \<in> set (column tasks c)" "task_id u = task_id T"
    by blast
  from u(1) have "(c, column tasks c) \<in> set tasks" by (rule column_in_board)
  with ids A T u have "c = A"
    unfolding all_tasks_def using ids_apart [of tasks c "column tasks c" A "column tasks A" u T]
    by blast
  with c show ?thesis by simp
qed

lemma targetColumn_of_task:
  assumes "distinct (map task_id (all_tasks tasks))" "U \<in> set (column tasks B)" "B \<noteq> []"
  shows "targetColumn tasks (task_id U) = Str B"
  using findColumn_unique [OF assms(1,2)] assms(3) by (simp add: targetColumn_def)

lemma targetColumn_of_column:
  "findColumn tasks oid = None \<Longrightarrow> targetColumn tasks oid = oid"
  by (simp add: targetColumn_def)

subsection \<open>Categorising and rebuilding\<close>

lemma column_categorizedTasks:
  "column (categorizedTasks ts) k = filter (\<lambda>t. spec_categorize (progress t) = k) ts"
proof -
  have todo: "(spec_categorize p = ''To Do'') = (p \<le> 40)" for p
    by (simp add: spec_categorize_def)
  have inprog: "(spec_categorize p = ''In Progress'') = (40 < p \<and> p \<le> 80)" for p
    by (simp add: spec_categorize_def)
  have compl: "(spec_categorize p = ''Completed'') = (80 < p)" for p
    by (simp add: spec_categorize_def)
  have other: "k \<noteq> ''To Do'' \<Longrightarrow> k \<noteq> ''In Progress'' \<Longrightarrow> k \<noteq> ''Completed''
      \<Longrightarrow> spec_categorize p \<noteq> k" for p
    by (auto simp: spec_categorize_def)
  show ?thesis
  proof (cases "k = ''To Do'' \<or> k = ''In Progress'' \<or> k = ''Completed''")
    case True
    then show ?thesis
      by (auto simp: column_def categorizedTasks_def todo inprog compl)
  next
    case False
    then show ?thesis
      by (simp add: column_def categorizedTasks_def other)
  qed
qed

lemma mset_three_filters:
  "mset (filter (\<lambda>t. progress t \<le> 40) ts)
     + mset (filter (\<lambda>t. 40 < progress t \<and> progress t \<le> 80) ts)
     + mset (filter (\<lambda>t. 80 < progress t) ts) = mset (ts :: task list)"
  by (induction ts) auto

text \<open>
  Claim C4. A task lands in exactly one column, and which one is decided by its
  progress \<open>p\<close>: To Do when \<open>p \<le> 40\<close>, In Progress when \<open>40 < p \<le> 80\<close>, Completed when
  \<open>p > 80\<close>. The three ranges leave no gap and do not overlap; this holds for every
  integer, so for every progress in \<open>[0, 100]\<close>. The witness evaluates the boundary
  values 0, 40, 41, 80, 81 and 100.
\<close>

theorem categorize_one_column:
  "categorizedTasks [t] =
     (if progress t \<le> 40 then [(''To Do'', [t]), (''In Progress'', []), (''Completed'', [])]
      else if progress t \<le> 80 then [(''To Do'', []), (''In Progress'', [t]), (''Completed'', [])]
      else [(''To Do'', []), (''In Progress'', []), (''Completed'', [t])])"
  by (simp add: categorizedTasks_def)

theorem categorize_one_column_witness:
  "categorizedTasks [example_task 1 0]
     = [(''To Do'', [example_task 1 0]), (''In Progress'', []), (''Completed'', [])]
   \<and> categorizedTasks [example_task 1 40]
     = [(''To Do'', [example_task 1 40]), (''In Progress'', []), (''Completed'', [])]
   \<and> categorizedTasks [example_task 1 41]
     = [(''To Do'', []), (''In Progress'', [example_task 1 41]), (''Completed'', [])]
   \<and> categorizedTasks [example_task 1 80]
     = [(''To Do'', []), (''In Progress'', [example_task 1 80]), (''Completed'', [])]
   \<and> categorizedTasks [example_task 1 81]
     = [(''To Do'', []), (''In Progress'', []), (''Completed'', [example_task 1 81])]
   \<and> categorizedTasks [example_task 1 100]
     = [(''To Do'', []), (''In Progress'', []), (''Completed'', [example_task 1 100])]"
  using categorize_one_column [of "example_task 1 0"] categorize_one_column [of "example_task 1 40"]
    categorize_one_column [of "example_task 1 41"] categorize_one_column [of "example_task 1 80"]
    categorize_one_column [of "example_task 1 81"] categorize_one_column [of "example_task 1 100"]
  by (simp add: example_task_def)

text \<open>
  Claim C7. \<open>categorizedTasks\<close> has the three fixed columns, in their order; the column
  named \<open>k\<close> holds exactly the tasks whose progress the categoriser sends to \<open>k\<close>, in
  the order they have in the input (each column is a subsequence of the input); and
  the columns together hold every task of the input once.
\<close>

theorem build_stable_partition:
  "map fst (categorizedTasks ts) = [''To Do'', ''In Progress'', ''Completed'']
   \<and> (\<forall>k. column (categorizedTasks ts) k = filter (\<lambda>t. spec_categorize (progress t) = k) ts)
   \<and> (\<forall>k. subseq (column (categorizedTasks ts) k) ts)
   \<and> mset (all_tasks (categorizedTasks ts)) = mset ts"
proof -
  have keys: "map fst (categorizedTasks ts) = [''To Do'', ''In Progress'', ''Completed'']"
    by (simp add: categorizedTasks_def)
  have cols: "\<forall>k. column (categorizedTasks ts) k = filter (\<lambda>t. spec_categorize (progress t) = k) ts"
    by (simp add: column_categorizedTasks)
  have sub: "\<forall>k. subseq (column (categorizedTasks ts) k) ts"
    by (simp add: column_categorizedTasks)
  have all: "mset (all_tasks (categorizedTasks ts)) = mset ts"
    using mset_three_filters [of ts] by (simp add: all_tasks_def categorizedTasks_def ac_simps)
  from keys cols sub all show ?thesis by blast
qed

theorem build_stable_partition_witness:
  "column (categorizedTasks [example_task 1 10, example_task 2 90, example_task 3 30, example_task 4 85])
     ''To Do'' = [example_task 1 10, example_task 3 30]
   \<and> column (categorizedTasks [example_task 1 10, example_task 2 90, example_task 3 30, example_task 4 85])
     ''Completed'' = [example_task 2 90, example_task 4 85]"
  using build_stable_partition
    [of "[example_task 1 10, example_task 2 90, example_task 3 30, example_task 4 85]"]
  by (simp add: example_task_def spec_categorize_def)

text \<open>
  Claim C9. Flattening a board built by \<open>categorizedTasks\<close> succeeds, and categorising
  the flattened sequence gives the same board again: the same three columns with the
  same members (here even in the same order within each column).
\<close>

theorem rebuild_after_flatten:
  "\<exists>fs. flatTasks (categorizedTasks ts) = Inr fs \<and> categorizedTasks fs = categorizedTasks ts"
proof -
  let ?fs = "filter (\<lambda>t. progress t \<le> 40) ts
      @ filter (\<lambda>t. 40 < progress t \<and> progress t \<le> 80) ts
      @ filter (\<lambda>t. 80 < progress t) ts"
  have flat: "flatTasks (categorizedTasks ts) = Inr ?fs"
    by (simp add: flatTasks_def categorizedTasks_def)
  have a: "filter (\<lambda>t. progress t \<le> 40) ?fs = filter (\<lambda>t. progress t \<le> 40) ts"
    by (simp add: filter_empty_conv)
  have b: "filter (\<lambda>t. 40 < progress t \<and> progress t \<le> 80) ?fs
      = filter (\<lambda>t. 40 < progress t \<and> progress t \<le> 80) ts"
    by (simp add: filter_empty_conv)
  have c: "filter (\<lambda>t. 80 < progress t) ?fs = filter (\<lambda>t. 80 < progress t) ts"
    by (simp add: filter_empty_conv)
  have "categorizedTasks ?fs = categorizedTasks ts"
    unfolding categorizedTasks_def using a b c by simp
  with flat show ?thesis by blast
qed

theorem rebuild_after_flatten_witness:
  "flatTasks (categorizedTasks [example_task 1 90, example_task 2 10, example_task 3 50])
     = Inr [example_task 2 10, example_task 3 50, example_task 1 90]
   \<and> categorizedTasks [example_task 2 10, example_task 3 50, example_task 1 90]
     = categorizedTasks [example_task 1 90, example_task 2 10, example_task 3 50]"
  using rebuild_after_flatten [of "[example_task 1 90, example_task 2 10, example_task 3 50]"]
  by (simp add: flatTasks_def categorizedTasks_def example_task_def)

subsection \<open>The status filter\<close>

text \<open>
  Claim C8. With the filter \<^verbatim>\<open>all\<close> the filtered view is the whole state, every column
  as it is; selecting the status that is already the active filter sets the filter
  back to \<^verbatim>\<open>all\<close>; so selecting a status twice from the unfiltered view shows the
  whole state again.
\<close>

theorem filter_all_and_toggle:
  "filteredTasks tasks DEFAULT_FILTER_OPTION = tasks
   \<and> selectStatusFilter X X = DEFAULT_FILTER_OPTION
   \<and> filteredTasks tasks (selectStatusFilter (selectStatusFilter DEFAULT_FILTER_OPTION X) X) = tasks"
  by (simp add: filteredTasks_def selectStatusFilter_def)

theorem filter_all_and_toggle_witness:
  "filteredTasks example_board ''all'' = example_board
   \<and> selectStatusFilter ''To Do'' ''To Do'' = ''all''
   \<and> filteredTasks example_board (selectStatusFilter (selectStatusFilter ''all'' ''To Do'') ''To Do'')
     = example_board"
  using filter_all_and_toggle [of example_board "''To Do''"]
  by (simp add: DEFAULT_FILTER_OPTION_def)

subsection \<open>Deadline notifications\<close>

lemma checkDeadlines_toasts:
  "tomorrowStr clk \<noteq> today clk \<Longrightarrow>
   toasts (checkDeadlines clk ts n)
     = toasts n @ concat (map (spec_events (today clk) (tomorrowStr clk)) ts)"
  unfolding checkDeadlines_def
  by (induction ts arbitrary: n) (auto simp: spec_events_def showNotification_def)

lemma checkDeadlines_plays:
  "tomorrowStr clk \<noteq> today clk \<Longrightarrow>
   plays (checkDeadlines clk ts n)
     = plays n + length (concat (map (spec_events (today clk) (tomorrowStr clk)) ts))"
  unfolding checkDeadlines_def
  by (induction ts arbitrary: n) (auto simp: spec_events_def showNotification_def)

text \<open>
  When both readings of the clock fall on the same UTC day and the zone's offset one
  local day later is the offset now, \<open>tomorrowStr\<close> is the date of the day after
  \<open>today\<close>.
\<close>

lemma Day_next: "Day (t + msPerDay) = Day t + 1"
  by (simp add: Day_def msPerDay_def)

lemma tomorrowStr_steady_offset:
  assumes "LocalTZA_local clk (LocalTime clk (second_now clk) + msPerDay)
      = LocalTZA_utc clk (second_now clk)"
    and "Day (second_now clk) = Day (first_now clk)"
  shows "today clk = date_of_day (Day (first_now clk))
    \<and> tomorrowStr clk = date_of_day (Day (first_now clk) + 1)"
proof -
  from assms(1) have "tomorrow clk = second_now clk + msPerDay"
    by (simp add: tomorrow_def UTC_def LocalTime_def)
  with assms(2) have "Day (tomorrow clk) = Day (first_now clk) + 1"
    by (simp add: Day_next)
  then show ?thesis
    by (simp add: today_def tomorrowStr_def toISODate_def)
qed

text \<open>
  The specification's scenario on a clock without offset, at noon UTC on 1 March 2025:
  a task due that day and a task due the day after get their toasts, in input order.
\<close>

lemma checkDeadlines_steady_example:
  "today (utc_clock 1740830400000) = ''2025-03-01''
   \<and> tomorrowStr (utc_clock 1740830400000) = ''2025-03-02''
   \<and> checkDeadlines (utc_clock 1740830400000)
        [due_task 4 ''old'' ''2025-02-27'', due_task 5 ''five'' ''2025-03-01'',
         due_task 6 ''six'' ''2025-03-02'', example_task 7 20] silent
     = \<lparr>toasts = [\<lparr>message = dueTodayMessage ''five'', bgClass = ''bg-red-500 text-white''\<rparr>,
                  \<lparr>message = dueTomorrowMessage ''six'', bgClass = ''bg-yellow-500 text-black''\<rparr>],
        plays = 2\<rparr>"
proof -
  have d0: "today (utc_clock 1740830400000) = ''2025-03-01''"
    by (simp add: today_def utc_clock_def toISODate_def Day_def msPerDay_def date_of_day_def
        civil_def from_doe_def ymd_def month_of_def doy_of_def yoe_of_def
        date_text_def year_text_def pad_def digits.simps)
  have d1: "tomorrowStr (utc_clock 1740830400000) = ''2025-03-02''"
    by (simp add: tomorrowStr_def tomorrow_def UTC_def LocalTime_def utc_clock_def
        toISODate_def Day_def msPerDay_def date_of_day_def
        civil_def from_doe_def ymd_def month_of_def doy_of_def yoe_of_def
        date_text_def year_text_def pad_def digits.simps)
  show ?thesis
    by (simp add: d0 d1 checkDeadlines_def showNotification_def due_task_def example_task_def
        silent_def)
qed

text \<open>
  Claim C6, evaluated on two clocks in New York. At 00:30 UTC on 9 March 2025 (19:30
  local on 8 March, the evening before the clocks go forward) \<open>today\<close> is 2025-03-09,
  and so is \<open>tomorrowStr\<close>: one local day later is only 23 hours later, still 9 March in
  UTC. A task due on 2025-03-10, the day after \<open>today\<close>, gets no toast. At 23:30 UTC on
  1 November 2025 (19:30 local, the evening before the clocks go back) \<open>today\<close> is
  2025-11-01 and \<open>tomorrowStr\<close> is 2025-11-03, 25 hours later: a task due on
  2025-11-02 gets no toast either.
\<close>

theorem checkDeadlines_across_offset_change:
  "today (new_york_clock 1741480200000) = ''2025-03-09''
   \<and> date_of_day (Day (first_now (new_york_clock 1741480200000)) + 1) = ''2025-03-10''
   \<and> tomorrowStr (new_york_clock 1741480200000) = ''2025-03-09''
   \<and> checkDeadlines (new_york_clock 1741480200000) [due_task 6 ''six'' ''2025-03-10''] silent
       = silent
   \<and> today (new_york_clock 1762039800000) = ''2025-11-01''
   \<and> date_of_day (Day (first_now (new_york_clock 1762039800000)) + 1) = ''2025-11-02''
   \<and> tomorrowStr (new_york_clock 1762039800000) = ''2025-11-03''
   \<and> checkDeadlines (new_york_clock 1762039800000) [due_task 6 ''six'' ''2025-11-02''] silent
       = silent"
proof -
  have spring: "today (new_york_clock 1741480200000) = ''2025-03-09''"
    by (simp add: today_def new_york_clock_def toISODate_def Day_def msPerDay_def
        date_of_day_def civil_def from_doe_def ymd_def month_of_def doy_of_def yoe_of_def
        date_text_def year_text_def pad_def digits.simps)
  have spring_next: "date_of_day (Day (first_now (new_york_clock 1741480200000)) + 1) = ''2025-03-10''"
    by (simp add: new_york_clock_def Day_def msPerDay_def
        date_of_day_def civil_def from_doe_def ymd_def month_of_def doy_of_def yoe_of_def
        date_text_def year_text_def pad_def digits.simps)
  have spring_tomorrow: "tomorrow (new_york_clock 1741480200000) = 1741563000000"
    by (simp add: tomorrow_def UTC_def LocalTime_def new_york_clock_def new_york_utc_def
        new_york_local_def msPerDay_def)
  have spring_str: "tomorrowStr (new_york_clock 1741480200000) = ''2025-03-09''"
    by (simp add: tomorrowStr_def spring_tomorrow toISODate_def Day_def msPerDay_def
        date_of_day_def civil_def from_doe_def ymd_def month_of_def doy_of_def yoe_of_def
        date_text_def year_text_def pad_def digits.simps)
  have spring_scan: "checkDeadlines (new_york_clock 1741480200000)
      [due_task 6 ''six'' ''2025-03-10''] silent = silent"
    by (simp add: checkDeadlines_def spring spring_str due_task_def)
  have autumn: "today (new_york_clock 1762039800000) = ''2025-11-01''"
    by (simp add: today_def new_york_clock_def toISODate_def Day_def msPerDay_def
        date_of_day_def civil_def from_doe_def ymd_def month_of_def doy_of_def yoe_of_def
        date_text_def year_text_def pad_def digits.simps)
  have autumn_next: "date_of_day (Day (first_now (new_york_clock 1762039800000)) + 1) = ''2025-11-02''"
    by (simp add: new_york_clock_def Day_def msPerDay_def
        date_of_day_def civil_def from_doe_def ymd_def month_of_def doy_of_def yoe_of_def
        date_text_def year_text_def pad_def digits.simps)
  have autumn_tomorrow: "tomorrow (new_york_clock 1762039800000) = 1762129800000"
    by (simp add: tomorrow_def UTC_def LocalTime_def new_york_clock_def new_york_utc_def
        new_york_local_def msPerDay_def)
  have autumn_str: "tomorrowStr (new_york_clock 1762039800000) = ''2025-11-03''"
    by (simp add: tomorrowStr_def autumn_tomorrow toISODate_def Day_def msPerDay_def
        date_of_day_def civil_def from_doe_def ymd_def month_of_def doy_of_def yoe_of_def
        date_text_def year_text_def pad_def digits.simps)
  have autumn_scan: "checkDeadlines (new_york_clock 1762039800000)
      [due_task 6 ''six'' ''2025-11-02''] silent = silent"
    by (simp add: checkDeadlines_def autumn autumn_str due_task_def)
  from spring spring_next spring_str spring_scan autumn autumn_next autumn_str autumn_scan
  show ?thesis by blast
qed

subsection \<open>Loading the stored payload\<close>

text \<open>
  Claim C2, as the code has it. \<open>storedTasks\<close> is the stored array when the payload is
  an array, and the empty array when the key is absent or the payload is a falsy JSON
  value; the effect then sets the categorised board and does not fail. A payload that
  is not JSON makes \<^verbatim>\<open>JSON.parse\<close> throw: nothing in the effect catches it.
\<close>

theorem storedTasks_cases:
  "storedTasks (Payload (JArray ts)) = Inr (JArray ts)
   \<and> storedTasks Absent = Inr (JArray [])
   \<and> (\<not> truthy v \<longrightarrow> storedTasks (Payload v) = Inr (JArray []))
   \<and> storedTasks Unparseable = Inl SyntaxError
   \<and> taskLoadEffect (Payload (JArray ts)) clk n
       = Inr (categorizedTasks ts, checkDeadlines clk ts n)
   \<and> taskLoadEffect Absent clk n = Inr (categorizedTasks [], n)"
  by (simp add: storedTasks_def taskLoadEffect_def checkDeadlines_def)

theorem storedTasks_cases_witness:
  "storedTasks (Payload (JArray [example_task 1 10])) = Inr (JArray [example_task 1 10])
   \<and> storedTasks Absent = Inr (JArray [])
   \<and> \<not> truthy JNull \<and> storedTasks (Payload JNull) = Inr (JArray [])
   \<and> taskLoadEffect (Payload (JArray [example_task 1 10])) (utc_clock 1740830400000) silent
       = Inr ([(''To Do'', [example_task 1 10]), (''In Progress'', []), (''Completed'', [])], silent)"
  using storedTasks_cases [of "[example_task 1 10]" JNull "utc_clock 1740830400000" silent]
  by (simp add: categorizedTasks_def checkDeadlines_def example_task_def)

text \<open>
  The claim as stated fails: for a stored text that is not JSON the load throws
  \<^verbatim>\<open>SyntaxError\<close> instead of giving the empty sequence, and for a stored value such as
  \<^verbatim>\<open>42\<close> the effect throws \<^verbatim>\<open>TypeError\<close> at \<^verbatim>\<open>storedTasks.filter\<close>.
\<close>

theorem storedTasks_malformed_counterexample:
  "storedTasks Unparseable = Inl SyntaxError
   \<and> storedTasks Unparseable \<noteq> Inr (JArray [])
   \<and> taskLoadEffect Unparseable (utc_clock 1740830400000) silent = Inl SyntaxError
   \<and> taskLoadEffect (Payload (JNumber 42)) (utc_clock 1740830400000) silent = Inl TypeError"
  by (simp add: storedTasks_def taskLoadEffect_def)

subsection \<open>Dragging a card\<close>

lemma handleDragEnd_stores_previous:
  "snd (handleDragEnd tasks event) = None \<or> snd (handleDragEnd tasks event) = Some (flatTasks tasks)"
  unfolding handleDragEnd_def by (simp split: option.splits)

lemma updatedTasks_mset:
  assumes found: "findColumn tasks x = Some src"
    and ids: "distinct (map task_id (column tasks src))"
  shows "mset (all_tasks (updatedTasks src tgt x tasks)) = mset (all_tasks tasks)"
proof -
  from movedTask_found [OF found] obtain t where t: "movedTask tasks src x = Some t"
    "task_id t = x" "t \<in> set (column tasks src)"
    by blast
  let ?rest = "filter (\<lambda>task. task_id task \<noteq> x) (column tasks src)"
  let ?removed = "obj_set src ?rest tasks"
  from find_distinct_ids [OF ids t(3)] t(2) have "?rest = remove1 t (column tasks src)"
    by simp
  with t(3) have col: "mset (column tasks src) = mset ?rest + {#t#}"
    by simp
  have "mset (all_tasks ?removed) + mset (column tasks src) = mset (all_tasks tasks) + mset ?rest"
    by (rule mset_all_tasks_obj_set)
  then have "(mset (all_tasks ?removed) + {#t#}) + mset ?rest = mset (all_tasks tasks) + mset ?rest"
    unfolding col by (simp only: ac_simps)
  then have removed: "mset (all_tasks ?removed) + {#t#} = mset (all_tasks tasks)"
    by (simp only: add_right_cancel)
  have "mset (all_tasks (obj_set (to_key tgt) (column ?removed (to_key tgt) @ [t]) ?removed))
          + mset (column ?removed (to_key tgt))
        = mset (all_tasks ?removed) + mset (column ?removed (to_key tgt) @ [t])"
    by (rule mset_all_tasks_obj_set)
  then have "mset (all_tasks (obj_set (to_key tgt) (column ?removed (to_key tgt) @ [t]) ?removed))
        = mset (all_tasks ?removed) + {#t#}"
    by simp
  with removed t(1) show ?thesis
    by (simp add: updatedTasks_def Let_def)
qed

text \<open>
  A board the data model rules out: when two tasks of the source column share the
  dragged id, \<^verbatim>\<open>filter\<close> removes both while \<^verbatim>\<open>find\<close> re-appends only the first.
\<close>

lemma drag_with_duplicate_ids_drops_task:
  "fst (handleDragEnd (categorizedTasks [example_task 2 50, example_task 2 60, example_task 3 90])
         \<lparr>active = Num 2, over = Some (Num 3)\<rparr>)
     = [(''To Do'', []), (''In Progress'', []), (''Completed'', [example_task 3 90, example_task 2 50])]"
  by (simp add: handleDragEnd_def categorizedTasks_def example_task_def
      sourceColumn_def findColumn_def targetColumn_def updatedTasks_def obj_set_def column_def
      movedTask_def)

text \<open>
  Claim C1, evaluated on the board of the specification's scenario: task 2 is dragged
  from In Progress onto the column Completed. The next state has task 2 at the end of
  Completed, and its flattening is tasks 1, 3, 2; the array handed to
  \<^verbatim>\<open>localStorage.setItem\<close> is tasks 1, 2, 3, the flattening of the state before the
  move.
\<close>

theorem drag_stores_state_before_move:
  "handleDragEnd example_board \<lparr>active = Num 2, over = Some (Str ''Completed'')\<rparr>
     = ([(''To Do'', [example_task 1 10]), (''In Progress'', []),
         (''Completed'', [example_task 3 90, example_task 2 50])],
        Some (Inr [example_task 1 10, example_task 2 50, example_task 3 90]))
   \<and> flatTasks [(''To Do'', [example_task 1 10]), (''In Progress'', []),
         (''Completed'', [example_task 3 90, example_task 2 50])]
     = Inr [example_task 1 10, example_task 3 90, example_task 2 50]"
  by (simp add: handleDragEnd_def example_board_def categorizedTasks_def example_task_def
      sourceColumn_def findColumn_def targetColumn_def updatedTasks_def obj_set_def column_def
      movedTask_def flatTasks_def)




text \<open>
  Claim C5. On a board whose task identifiers are unique, let task \<open>T\<close> be in column
  \<open>A\<close> and let the drop resolve to another column \<open>B\<close>. After the move column \<open>A\<close> is
  its old sequence without \<open>T\<close>, the rest in their old order; column \<open>B\<close> is its old
  sequence followed by \<open>T\<close>; every other column is as it was; and the task at the end
  of \<open>B\<close> is \<open>T\<close> itself, with the progress it had.
\<close>

theorem move_relocates:
  assumes ids: "distinct (map task_id (all_tasks tasks))"
    and T: "T \<in> set (column tasks A)"
    and A: "A \<noteq> []"
    and ev: "active event = task_id T" "over event = Some oid"
    and B: "to_key (targetColumn tasks oid) = B" "B \<noteq> A"
    and truthy: "\<not> falsy (targetColumn tasks oid)"
  shows "column (fst (handleDragEnd tasks event)) A = remove1 T (column tasks A)
    \<and> column (fst (handleDragEnd tasks event)) B = column tasks B @ [T]
    \<and> (\<forall>k. k \<noteq> A \<and> k \<noteq> B \<longrightarrow> column (fst (handleDragEnd tasks event)) k = column tasks k)
    \<and> subseq (column (fst (handleDragEnd tasks event)) A) (column tasks A)
    \<and> progress (last (column (fst (handleDragEnd tasks event)) B)) = progress T"
proof -
  let ?tgt = "targetColumn tasks oid"
  from findColumn_unique [OF ids T] ev(1) have src: "sourceColumn tasks event = Some A"
    by (simp add: sourceColumn_def)
  from B have differ: "Str A \<noteq> ?tgt" by (metis to_key.simps(1))
  have "oid \<noteq> task_id T"
  proof
    assume "oid = task_id T"
    with findColumn_unique [OF ids T] A have "?tgt = Str A" by (simp add: targetColumn_def)
    with differ show False by simp
  qed
  with ev src A truthy differ
  have run: "fst (handleDragEnd tasks event) = updatedTasks A ?tgt (task_id T) tasks"
    by (simp add: handleDragEnd_def)
  from distinct_ids_column [OF ids] have dA: "distinct (map task_id (column tasks A))" .
  from find_distinct_ids [OF dA T] have moved: "movedTask tasks A (task_id T) = Some T"
    and rest: "filter (\<lambda>task. task_id task \<noteq> task_id T) (column tasks A) = remove1 T (column tasks A)"
    by (simp_all add: movedTask_def)
  from moved rest B have new: "updatedTasks A ?tgt (task_id T) tasks
      = obj_set B (column tasks B @ [T]) (obj_set A (remove1 T (column tasks A)) tasks)"
    by (simp add: updatedTasks_def Let_def column_obj_set)
  from B(2) have colA: "column (fst (handleDragEnd tasks event)) A = remove1 T (column tasks A)"
    unfolding run new by (simp add: column_obj_set)
  have colB: "column (fst (handleDragEnd tasks event)) B = column tasks B @ [T]"
    unfolding run new by (simp add: column_obj_set)
  have others: "\<forall>k. k \<noteq> A \<and> k \<noteq> B \<longrightarrow> column (fst (handleDragEnd tasks event)) k = column tasks k"
    unfolding run new by (simp add: column_obj_set)
  have sub: "subseq (column (fst (handleDragEnd tasks event)) A) (column tasks A)"
    unfolding colA rest [symmetric] by simp
  have prog: "progress (last (column (fst (handleDragEnd tasks event)) B)) = progress T"
    unfolding colB by simp
  from colA colB others sub prog show ?thesis by blast
qed

theorem move_relocates_witness:
  "column (fst (handleDragEnd example_board \<lparr>active = Num 2, over = Some (Str ''Completed'')\<rparr>))
      ''In Progress'' = []
   \<and> column (fst (handleDragEnd example_board \<lparr>active = Num 2, over = Some (Str ''Completed'')\<rparr>))
      ''Completed'' = [example_task 3 90, example_task 2 50]
   \<and> column (fst (handleDragEnd example_board \<lparr>active = Num 2, over = Some (Str ''Completed'')\<rparr>))
      ''To Do'' = [example_task 1 10]
   \<and> progress (last (column
        (fst (handleDragEnd example_board \<lparr>active = Num 2, over = Some (Str ''Completed'')\<rparr>))
        ''Completed'')) = 50
   \<and> column (fst (handleDragEnd example_board \<lparr>active = Num 1, over = Some (Num 2)\<rparr>))
      ''In Progress'' = [example_task 2 50, example_task 1 10]"
proof -
  have ids: "distinct (map task_id (all_tasks example_board))"
    by (simp add: all_tasks_def example_board_def categorizedTasks_def example_task_def)
  have T2: "example_task 2 50 \<in> set (column example_board ''In Progress'')"
    and T1: "example_task 1 10 \<in> set (column example_board ''To Do'')"
    by (simp_all add: column_def example_board_def categorizedTasks_def example_task_def)
  have tgt: "targetColumn example_board (Str ''Completed'') = Str ''Completed''"
    and tgt': "targetColumn example_board (Num 2) = Str ''In Progress''"
    by (simp_all add: targetColumn_def findColumn_def example_board_def categorizedTasks_def
        example_task_def)
  have old: "column example_board ''Completed'' = [example_task 3 90]"
    "column example_board ''In Progress'' = [example_task 2 50]"
    "column example_board ''To Do'' = [example_task 1 10]"
    by (simp_all add: column_def example_board_def categorizedTasks_def example_task_def)
  from move_relocates [OF ids T2, of "\<lparr>active = Num 2, over = Some (Str ''Completed'')\<rparr>"
      "Str ''Completed''" "''Completed''"] tgt old
  have first: "column (fst (handleDragEnd example_board \<lparr>active = Num 2, over = Some (Str ''Completed'')\<rparr>))
      ''In Progress'' = []
   \<and> column (fst (handleDragEnd example_board \<lparr>active = Num 2, over = Some (Str ''Completed'')\<rparr>))
      ''Completed'' = [example_task 3 90, example_task 2 50]
   \<and> column (fst (handleDragEnd example_board \<lparr>active = Num 2, over = Some (Str ''Completed'')\<rparr>))
      ''To Do'' = [example_task 1 10]
   \<and> progress (last (column
        (fst (handleDragEnd example_board \<lparr>active = Num 2, over = Some (Str ''Completed'')\<rparr>))
        ''Completed'')) = 50"
    by (simp add: example_task_def)
  from move_relocates [OF ids T1, of "\<lparr>active = Num 1, over = Some (Num 2)\<rparr>"
      "Num 2" "''In Progress''"] tgt' old
  have second: "column (fst (handleDragEnd example_board \<lparr>active = Num 1, over = Some (Num 2)\<rparr>))
      ''In Progress'' = [example_task 2 50, example_task 1 10]"
    by (simp add: example_task_def)
  from first second show ?thesis by blast
qed

text \<open>
  Claim C10. On a board whose task identifiers are unique, the tasks held by all the
  columns after \<open>handleDragEnd\<close> are, as a multiset, the tasks held before: a move,
  whether it changes the state or not, loses no task and duplicates none. The
  identifiers stay unique, so this holds along any sequence of moves.
\<close>

theorem move_preserves_tasks:
  assumes "distinct (map task_id (all_tasks tasks))"
  shows "mset (all_tasks (fst (handleDragEnd tasks event))) = mset (all_tasks tasks)
    \<and> distinct (map task_id (all_tasks (fst (handleDragEnd tasks event))))"
proof -
  have "mset (all_tasks (updatedTasks src tgt (active event) tasks)) = mset (all_tasks tasks)"
    if "sourceColumn tasks event = Some src" for src tgt
    using that updatedTasks_mset [of tasks "active event" src tgt]
      distinct_ids_column [OF assms, of src]
    by (simp add: sourceColumn_def)
  then have same: "mset (all_tasks (fst (handleDragEnd tasks event))) = mset (all_tasks tasks)"
    unfolding handleDragEnd_def by (auto split: option.splits)
  then have "mset (map task_id (all_tasks (fst (handleDragEnd tasks event))))
      = mset (map task_id (all_tasks tasks))"
    by simp
  with assms have "distinct (map task_id (all_tasks (fst (handleDragEnd tasks event))))"
    by (metis mset_eq_imp_distinct_iff)
  with same show ?thesis by simp
qed

theorem move_preserves_tasks_witness:
  "distinct (map task_id (all_tasks example_board))
   \<and> mset (all_tasks (fst (handleDragEnd example_board \<lparr>active = Num 2, over = Some (Num 3)\<rparr>)))
     = mset (all_tasks example_board)
   \<and> all_tasks (fst (handleDragEnd example_board \<lparr>active = Num 2, over = Some (Num 3)\<rparr>))
     = [example_task 1 10, example_task 3 90, example_task 2 50]"
proof -
  have ids: "distinct (map task_id (all_tasks example_board))"
    by (simp add: all_tasks_def example_board_def categorizedTasks_def example_task_def)
  have run: "all_tasks (fst (handleDragEnd example_board \<lparr>active = Num 2, over = Some (Num 3)\<rparr>))
     = [example_task 1 10, example_task 3 90, example_task 2 50]"
    by (simp add: handleDragEnd_def example_board_def categorizedTasks_def example_task_def
        sourceColumn_def findColumn_def targetColumn_def updatedTasks_def obj_set_def column_def
        movedTask_def all_tasks_def)
  from move_preserves_tasks [OF ids, of "\<lparr>active = Num 2, over = Some (Num 3)\<rparr>"] ids run
  show ?thesis by simp
qed


end
